theory Spec2Isabelle
  imports Complex_Main "HOL-Library.Word" "HOL-Library.Sublist"
begin

section \<open>JavaScript values used by the transcription pipeline\<close>

subsection \<open>Strings\<close>

text \<open>
  A JavaScript string is a sequence of 16-bit code units. \<open>js\<close> embeds an ASCII literal.
\<close>

type_synonym jschar = "16 word"
type_synonym jsstring = "jschar list"

definition js :: "string \<Rightarrow> jsstring" where
  "js s = map of_char s"

text \<open>
  The characters that \<^verbatim>\<open>String.prototype.trim\<close>, the regular expression class
  \<^verbatim>\<open>\s\<close>, \<^verbatim>\<open>Number\<close> and \<^verbatim>\<open>parseInt\<close> treat as white space: the
  ECMAScript WhiteSpace and LineTerminator productions.
\<close>

definition isWhiteSpace :: "jschar \<Rightarrow> bool" where
  "isWhiteSpace c \<longleftrightarrow>
     c = 0x09 \<or> c = 0x0A \<or> c = 0x0B \<or> c = 0x0C \<or> c = 0x0D \<or> c = 0x20 \<or> c = 0xA0 \<or>
     c = 0x1680 \<or> (0x2000 \<le> c \<and> c \<le> 0x200A) \<or> c = 0x2028 \<or> c = 0x2029 \<or>
     c = 0x202F \<or> c = 0x205F \<or> c = 0x3000 \<or> c = 0xFEFF"

definition trimStart :: "jsstring \<Rightarrow> jsstring" where
  "trimStart s = dropWhile isWhiteSpace s"

definition trim :: "jsstring \<Rightarrow> jsstring" where
  "trim s = rev (dropWhile isWhiteSpace (rev (dropWhile isWhiteSpace s)))"

text \<open>\<^verbatim>\<open>s.split(sep)\<close> for a one-character separator; the empty string gives \<^verbatim>\<open>[""]\<close>.\<close>

fun split :: "jschar \<Rightarrow> jsstring \<Rightarrow> jsstring list" where
  "split sep [] = [[]]"
| "split sep (c # cs) =
     (if c = sep then [] # split sep cs
      else (case split sep cs of p # ps \<Rightarrow> (c # p) # ps | [] \<Rightarrow> [[c]]))"

text \<open>\<^verbatim>\<open>s.replace(/\s+/g, ' ')\<close>: every maximal run of white space becomes one space.\<close>

function collapseWhiteSpace :: "jsstring \<Rightarrow> jsstring" where
  "collapseWhiteSpace [] = []"
| "collapseWhiteSpace (c # cs) =
     (if isWhiteSpace c then 0x20 # collapseWhiteSpace (dropWhile isWhiteSpace cs)
      else c # collapseWhiteSpace cs)"
  by pat_completeness auto
termination
  by (relation "measure length") (auto simp: length_dropWhile_le le_imp_less_Suc)

text \<open>\<^verbatim>\<open>s.match(/[.!?]$/)\<close> is not null exactly when the last code unit is one of the three.\<close>

definition endsSentence :: "jsstring \<Rightarrow> bool" where
  "endsSentence s \<longleftrightarrow> s \<noteq> [] \<and> (last s = 0x2E \<or> last s = 0x21 \<or> last s = 0x3F)"

text \<open>\<^verbatim>\<open>parts.join(sep)\<close>.\<close>

fun join :: "jsstring \<Rightarrow> jsstring list \<Rightarrow> jsstring" where
  "join sep [] = []"
| "join sep [x] = x"
| "join sep (x # y # ys) = x @ sep @ join sep (y # ys)"

subsection \<open>Numbers\<close>

text \<open>
  A JavaScript number is NaN, an infinity or a finite value. Finite values are kept as
  exact rationals: the model agrees with IEEE doubles wherever every intermediate value is
  a representable double, as in each closed theorem below (halves and integers), and the
  order-theoretic facts used (rounding is monotone) hold for doubles as well. The sign of
  zero is not represented.
\<close>

datatype jsnum = NaN | PosInf | NegInf | Fin rat

fun jadd :: "jsnum \<Rightarrow> jsnum \<Rightarrow> jsnum" where
  "jadd NaN _ = NaN"
| "jadd _ NaN = NaN"
| "jadd PosInf NegInf = NaN"
| "jadd NegInf PosInf = NaN"
| "jadd PosInf _ = PosInf"
| "jadd _ PosInf = PosInf"
| "jadd NegInf _ = NegInf"
| "jadd _ NegInf = NegInf"
| "jadd (Fin a) (Fin b) = Fin (a + b)"

definition jsignInf :: "bool \<Rightarrow> jsnum" where
  "jsignInf neg = (if neg then NegInf else PosInf)"

fun jmul :: "jsnum \<Rightarrow> jsnum \<Rightarrow> jsnum" where
  "jmul NaN _ = NaN"
| "jmul _ NaN = NaN"
| "jmul (Fin a) (Fin b) = Fin (a * b)"
| "jmul (Fin a) PosInf = (if a = 0 then NaN else jsignInf (a < 0))"
| "jmul (Fin a) NegInf = (if a = 0 then NaN else jsignInf (0 < a))"
| "jmul PosInf (Fin b) = (if b = 0 then NaN else jsignInf (b < 0))"
| "jmul NegInf (Fin b) = (if b = 0 then NaN else jsignInf (0 < b))"
| "jmul PosInf PosInf = PosInf"
| "jmul NegInf NegInf = PosInf"
| "jmul PosInf NegInf = NegInf"
| "jmul NegInf PosInf = NegInf"

fun jdiv :: "jsnum \<Rightarrow> jsnum \<Rightarrow> jsnum" where
  "jdiv NaN _ = NaN"
| "jdiv _ NaN = NaN"
| "jdiv (Fin a) (Fin b) =
     (if b = 0 then (if a = 0 then NaN else jsignInf (a < 0)) else Fin (a / b))"
| "jdiv (Fin a) _ = Fin 0"
| "jdiv PosInf (Fin b) = jsignInf (b < 0)"
| "jdiv NegInf (Fin b) = jsignInf (\<not> b < 0)"
| "jdiv _ _ = NaN"

text \<open>\<^verbatim>\<open>a <= b\<close>: false as soon as one side is NaN.\<close>

fun jle :: "jsnum \<Rightarrow> jsnum \<Rightarrow> bool" where
  "jle NaN _ = False"
| "jle _ NaN = False"
| "jle NegInf _ = True"
| "jle _ PosInf = True"
| "jle (Fin a) (Fin b) = (a \<le> b)"
| "jle _ _ = False"

text \<open>\<^verbatim>\<open>Math.round\<close>: the nearest integer, a tie going towards plus infinity.\<close>

fun Math_round :: "jsnum \<Rightarrow> jsnum" where
  "Math_round (Fin a) = Fin (of_int \<lfloor>a + 1 / 2\<rfloor>)"
| "Math_round x = x"

subsection \<open>\<^verbatim>\<open>Number(string)\<close> and \<^verbatim>\<open>parseInt(string)\<close>\<close>

definition isDigit :: "jschar \<Rightarrow> bool" where
  "isDigit c \<longleftrightarrow> 0x30 \<le> c \<and> c \<le> 0x39"

text \<open>The value of a digit in a radix up to 16, if the code unit is one.\<close>

definition digitValue :: "nat \<Rightarrow> jschar \<Rightarrow> nat option" where
  "digitValue radix c =
     (let v = (if 0x30 \<le> c \<and> c \<le> 0x39 then Some (unat c - 0x30)
               else if 0x61 \<le> c \<and> c \<le> 0x66 then Some (unat c - 0x61 + 10)
               else if 0x41 \<le> c \<and> c \<le> 0x46 then Some (unat c - 0x41 + 10)
               else None)
      in case v of Some d \<Rightarrow> (if d < radix then Some d else None) | None \<Rightarrow> None)"

definition isRadixDigit :: "nat \<Rightarrow> jschar \<Rightarrow> bool" where
  "isRadixDigit radix c \<longleftrightarrow> digitValue radix c \<noteq> None"

definition digitsValue :: "nat \<Rightarrow> jsstring \<Rightarrow> nat" where
  "digitsValue radix ds = foldl (\<lambda>a c. radix * a + (case digitValue radix c of Some d \<Rightarrow> d | None \<Rightarrow> 0)) 0 ds"

definition scale10 :: "rat \<Rightarrow> int \<Rightarrow> rat" where
  "scale10 x e = (if 0 \<le> e then x * 10 ^ nat e else x / 10 ^ nat (- e))"

text \<open>ExponentPart, or nothing, up to the end of the literal.\<close>

definition parseExponent :: "jsstring \<Rightarrow> int option" where
  "parseExponent s =
     (case s of
        [] \<Rightarrow> Some 0
      | c # r \<Rightarrow>
          if c = 0x65 \<or> c = 0x45 then
            (let neg = (r \<noteq> [] \<and> hd r = 0x2D);
                 ds = (if r \<noteq> [] \<and> (hd r = 0x2B \<or> hd r = 0x2D) then tl r else r)
             in if ds \<noteq> [] \<and> list_all isDigit ds
                then Some (if neg then - int (digitsValue 10 ds) else int (digitsValue 10 ds))
                else None)
          else None)"

text \<open>StrUnsignedDecimalLiteral.\<close>

definition parseUnsignedDecimal :: "jsstring \<Rightarrow> jsnum" where
  "parseUnsignedDecimal s =
     (if s = js ''Infinity'' then PosInf
      else
        let ip = takeWhile isDigit s; r1 = dropWhile isDigit s;
            dot = (r1 \<noteq> [] \<and> hd r1 = 0x2E);
            fp = (if dot then takeWhile isDigit (tl r1) else []);
            r2 = (if dot then dropWhile isDigit (tl r1) else r1)
        in if ip = [] \<and> fp = [] then NaN
           else (case parseExponent r2 of
                   None \<Rightarrow> NaN
                 | Some e \<Rightarrow>
                     Fin (scale10 (of_nat (digitsValue 10 ip)
                                   + of_nat (digitsValue 10 fp) / 10 ^ length fp) e)))"

definition jneg :: "jsnum \<Rightarrow> jsnum" where
  "jneg x = (case x of NaN \<Rightarrow> NaN | PosInf \<Rightarrow> NegInf | NegInf \<Rightarrow> PosInf | Fin a \<Rightarrow> Fin (- a))"

text \<open>NonDecimalIntegerLiteral: a prefix \<^verbatim>\<open>0x\<close>, \<^verbatim>\<open>0o\<close> or \<^verbatim>\<open>0b\<close> and digits only.\<close>

definition parseRadixLiteral :: "nat \<Rightarrow> jsstring \<Rightarrow> jsnum" where
  "parseRadixLiteral radix ds =
     (if ds \<noteq> [] \<and> list_all (isRadixDigit radix) ds then Fin (of_nat (digitsValue radix ds))
      else NaN)"

text \<open>\<^verbatim>\<open>Number(s)\<close> on a string: StringToNumber.\<close>

definition Number :: "jsstring \<Rightarrow> jsnum" where
  "Number str =
     (let s = trim str in
      case s of
        [] \<Rightarrow> Fin 0
      | c # r \<Rightarrow>
          if c = 0x30 \<and> r \<noteq> [] \<and> (hd r = 0x78 \<or> hd r = 0x58) then parseRadixLiteral 16 (tl r)
          else if c = 0x30 \<and> r \<noteq> [] \<and> (hd r = 0x6F \<or> hd r = 0x4F) then parseRadixLiteral 8 (tl r)
          else if c = 0x30 \<and> r \<noteq> [] \<and> (hd r = 0x62 \<or> hd r = 0x42) then parseRadixLiteral 2 (tl r)
          else if c = 0x2B then parseUnsignedDecimal r
          else if c = 0x2D then jneg (parseUnsignedDecimal r)
          else parseUnsignedDecimal s)"

text \<open>
  \<^verbatim>\<open>parseInt(x)\<close> with no radix. The argument is first converted to a string:
  \<^verbatim>\<open>undefined\<close> becomes \<^verbatim>\<open>"undefined"\<close>. Leading white space and a sign are skipped,
  a prefix \<^verbatim>\<open>0x\<close> selects radix 16, and the longest run of digits is read; no digit gives NaN.
\<close>

definition parseInt :: "jsstring option \<Rightarrow> jsnum" where
  "parseInt x =
     (let s0 = trimStart (case x of None \<Rightarrow> js ''undefined'' | Some s \<Rightarrow> s);
          neg = (s0 \<noteq> [] \<and> hd s0 = 0x2D);
          s1 = (if s0 \<noteq> [] \<and> (hd s0 = 0x2B \<or> hd s0 = 0x2D) then tl s0 else s0);
          hex = (length s1 \<ge> 2 \<and> hd s1 = 0x30 \<and> (hd (tl s1) = 0x78 \<or> hd (tl s1) = 0x58));
          radix = (if hex then 16 else 10);
          s2 = (if hex then drop 2 s1 else s1);
          z = takeWhile (isRadixDigit radix) s2
      in if z = [] then NaN
         else if neg then Fin (- of_nat (digitsValue radix z))
         else Fin (of_nat (digitsValue radix z)))"

section \<open>Timestamp parsing\<close>

text \<open>
  An exception of the JavaScript run time. The pipeline creates one itself (the
  not-initialised error); the others come from the file system, the converter or the engine.
\<close>

datatype jserror = JsError string

text \<open>Array destructuring: a missing element is \<^verbatim>\<open>undefined\<close>.\<close>

definition element :: "'a list \<Rightarrow> nat \<Rightarrow> 'a option" where
  "element xs i = (if i < length xs then Some (xs ! i) else None)"

text \<open>An arithmetic operand: \<^verbatim>\<open>undefined\<close> converts to NaN.\<close>

definition operand :: "jsnum option \<Rightarrow> jsnum" where
  "operand x = (case x of None \<Rightarrow> NaN | Some v \<Rightarrow> v)"

text \<open>
  The body of the \<^verbatim>\<open>try\<close> block of \<^verbatim>\<open>timestampToSeconds\<close>. On a string argument
  \<^verbatim>\<open>timestamp.split(',')\<close>, \<^verbatim>\<open>map(Number)\<close>, \<^verbatim>\<open>parseInt\<close> and the arithmetic
  do not throw; \<^verbatim>\<open>time.split(':')\<close> throws a TypeError when \<^verbatim>\<open>time\<close> is
  \<^verbatim>\<open>undefined\<close>.
\<close>

definition timestampToSeconds_try :: "jsstring \<Rightarrow> jserror + jsnum" where
  "timestampToSeconds_try timestamp =
     (let parts = split 0x2C timestamp;
          ms = element parts 1
      in case element parts 0 of
           None \<Rightarrow> Inl (JsError ''TypeError: Cannot read properties of undefined'')
         | Some time \<Rightarrow>
             (let nums = map Number (split 0x3A time);
                  hours = operand (element nums 0);
                  minutes = operand (element nums 1);
                  seconds = operand (element nums 2)
              in Inr (jadd (jadd (jadd (jmul hours (Fin 3600)) (jmul minutes (Fin 60))) seconds)
                           (jdiv (parseInt ms) (Fin 1000)))))"

text \<open>
  \<^verbatim>\<open>timestampToSeconds\<close>: the result and the lines written to the console. The
  \<^verbatim>\<open>catch\<close> branch logs and returns 0.
\<close>

definition timestampToSeconds :: "jsstring \<Rightarrow> jsnum \<times> string list" where
  "timestampToSeconds timestamp =
     (case timestampToSeconds_try timestamp of
        Inr v \<Rightarrow> (v, [])
      | Inl e \<Rightarrow> (Fin 0, [''Error parsing timestamp:'']))"

section \<open>Grouping tokens into sentences\<close>

text \<open>
  A token of the engine's result: its text and its \<^verbatim>\<open>timestamps\<close> object with the
  fields \<^verbatim>\<open>from\<close> and \<^verbatim>\<open>to\<close>. The handler reads the object with \<^verbatim>\<open>?.\<close>, so
  it may be absent.
\<close>

record tstamps =
  ts_from :: jsstring
  ts_to :: jsstring

record token =
  tok_text :: jsstring
  tok_timestamps :: "tstamps option"

text \<open>An element of \<^verbatim>\<open>sentences\<close>: the fields \<^verbatim>\<open>text\<close>, \<^verbatim>\<open>start\<close>, \<^verbatim>\<open>end\<close>.\<close>

record segment =
  seg_text :: jsstring
  seg_start :: jsnum
  seg_end :: jsnum

text \<open>
  \<^verbatim>\<open>startToken?.from ? timestampToSeconds(startToken.from) : 0\<close> and the same for
  \<^verbatim>\<open>to\<close>: an absent object or an empty string gives 0. Only the number returned by
  \<^verbatim>\<open>timestampToSeconds\<close> is used here; what it writes to the console is empty for
  every string (lemma \<open>timestampToSeconds_silent\<close>).
\<close>

definition startSeconds :: "tstamps option \<Rightarrow> jsnum" where
  "startSeconds startToken =
     (case startToken of
        None \<Rightarrow> Fin 0
      | Some ts \<Rightarrow> if ts_from ts \<noteq> [] then fst (timestampToSeconds (ts_from ts)) else Fin 0)"

definition endSeconds :: "tstamps option \<Rightarrow> jsnum" where
  "endSeconds endToken =
     (case endToken of
        None \<Rightarrow> Fin 0
      | Some ts \<Rightarrow> if ts_to ts \<noteq> [] then fst (timestampToSeconds (ts_to ts)) else Fin 0)"

text \<open>The two variables the \<^verbatim>\<open>forEach\<close> callback updates.\<close>

record loopstate =
  currentSentence :: "token list"
  sentences :: "segment list"

text \<open>
  The callback of \<^verbatim>\<open>transcription.forEach((token, index) => ...)\<close>; \<open>len\<close> is
  \<^verbatim>\<open>transcription.length\<close>.
\<close>

definition forEach_body :: "nat \<Rightarrow> loopstate \<Rightarrow> token \<times> nat \<Rightarrow> loopstate" where
  "forEach_body len st ti =
     (let tok = fst ti; index = snd ti;
          cs = currentSentence st @ [tok]
      in if endsSentence (trim (tok_text tok)) \<or> int index = int len - 1 then
           (let startToken = (case cs of [] \<Rightarrow> None | t # _ \<Rightarrow> tok_timestamps t);
                endToken = tok_timestamps tok;
                start = startSeconds startToken;
                end = endSeconds endToken;
                text = collapseWhiteSpace (trim (join [] (map tok_text cs)))
            in \<lparr>currentSentence = [],
                sentences =
                  (if text \<noteq> []
                   then sentences st @
                     [\<lparr>seg_text = text, seg_start = Math_round start, seg_end = Math_round end\<rparr>]
                   else sentences st)\<rparr>)
         else \<lparr>currentSentence = cs, sentences = sentences st\<rparr>)"

definition groupSentences :: "token list \<Rightarrow> segment list" where
  "groupSentences transcription =
     sentences (foldl (forEach_body (length transcription))
                  \<lparr>currentSentence = [], sentences = []\<rparr>
                  (zip transcription [0..<length transcription]))"

text \<open>The value the handler returns: \<^verbatim>\<open>{ text, tokens: sentences }\<close>.\<close>

record transcript =
  res_text :: jsstring
  res_tokens :: "segment list"

definition buildResult :: "token list \<Rightarrow> transcript" where
  "buildResult transcription =
     (let sents = groupSentences transcription
      in \<lparr>res_text = join (js '' '') (map seg_text sents), res_tokens = sents\<rparr>)"

subsection \<open>The loop in recursive form\<close>

text \<open>
  The same loop written as a recursion over the tokens still to come, the buffer
  \<^verbatim>\<open>currentSentence\<close> as an argument: the test of the \<^verbatim>\<open>if\<close>, the text and the
  segment pushed are those of \<open>forEach_body\<close>. Lemma \<open>groupSentences_groupFrom\<close> shows
  that the loop computes it.
\<close>

definition closesSentence :: "token \<Rightarrow> bool" where
  "closesSentence t \<longleftrightarrow> endsSentence (trim (tok_text t))"

definition sentenceText :: "token list \<Rightarrow> jsstring" where
  "sentenceText buf = collapseWhiteSpace (trim (concat (map tok_text buf)))"

definition emitSentence :: "token list \<Rightarrow> segment list" where
  "emitSentence buf =
     (if buf = [] \<or> sentenceText buf = [] then []
      else [\<lparr>seg_text = sentenceText buf,
             seg_start = Math_round (startSeconds (tok_timestamps (hd buf))),
             seg_end = Math_round (endSeconds (tok_timestamps (last buf)))\<rparr>])"

fun groupFrom :: "token list \<Rightarrow> token list \<Rightarrow> segment list" where
  "groupFrom buf [] = []"
| "groupFrom buf (t # ts) =
     (if closesSentence t \<or> ts = [] then emitSentence (buf @ [t]) @ groupFrom [] ts
      else groupFrom (buf @ [t]) ts)"

subsection \<open>The aggregator as the specification words it\<close>

text \<open>
  Written from section 4.3 of the specification, with definitions of its own for trimming,
  for the end of a sentence, for collapsing white space, for rounding and for the
  timestamp format. Only the class of white-space characters and the records of tokens and
  segments are shared with the model of the code above.

  Trimming removes the white space at both ends; \<open>spec_dropTrailing\<close> removes it at the
  end. A run of white space collapses to one space. A text ends a sentence when, trimmed,
  its last character is a full stop, an exclamation mark or a question mark.
\<close>

fun spec_dropTrailing :: "jsstring \<Rightarrow> jsstring" where
  "spec_dropTrailing [] = []"
| "spec_dropTrailing (c # cs) =
     (if list_all isWhiteSpace (c # cs) then [] else c # spec_dropTrailing cs)"

definition spec_trim :: "jsstring \<Rightarrow> jsstring" where
  "spec_trim s = spec_dropTrailing (dropWhile isWhiteSpace s)"

definition spec_endsInPunctuation :: "jsstring \<Rightarrow> bool" where
  "spec_endsInPunctuation s \<longleftrightarrow>
     (case rev (spec_trim s) of [] \<Rightarrow> False | c # _ \<Rightarrow> c \<in> set (js ''.!?''))"

fun spec_collapse :: "jsstring \<Rightarrow> jsstring" where
  "spec_collapse [] = []"
| "spec_collapse [c] = [if isWhiteSpace c then 0x20 else c]"
| "spec_collapse (c # d # cs) =
     (if isWhiteSpace c \<and> isWhiteSpace d then spec_collapse (d # cs)
      else (if isWhiteSpace c then 0x20 else c) # spec_collapse (d # cs))"

text \<open>
  The sentences of a token sequence: a sentence closes after a boundary token, and the last
  one at the end of the input whatever its last token is.
\<close>

definition spec_isBoundary :: "token \<Rightarrow> bool" where
  "spec_isBoundary t \<longleftrightarrow> spec_endsInPunctuation (tok_text t)"

fun spec_sentences :: "token list \<Rightarrow> token list list" where
  "spec_sentences [] = []"
| "spec_sentences (t # ts) =
     (if spec_isBoundary t then [t] # spec_sentences ts
      else (case spec_sentences ts of [] \<Rightarrow> [[t]] | g # gs \<Rightarrow> (t # g) # gs))"

text \<open>Rounding to the nearest integer second, a tie going up.\<close>

definition spec_round :: "rat \<Rightarrow> int" where
  "spec_round q = (if q - of_int \<lfloor>q\<rfloor> < 1 / 2 then \<lfloor>q\<rfloor> else \<lfloor>q\<rfloor> + 1)"

text \<open>
  The engine's timestamp format \<^verbatim>\<open>HH:MM:SS,mmm\<close>: its four fields, or nothing for a
  string of any other shape. The seconds are
  \<^verbatim>\<open>hours*3600 + minutes*60 + seconds + milliseconds/1000\<close>; a malformed timestamp counts
  as 0.
\<close>

definition spec_digit :: "jschar \<Rightarrow> nat option" where
  "spec_digit c = map_of (zip (js ''0123456789'') [0, 1, 2, 3, 4, 5, 6, 7, 8, 9]) c"

definition spec_fields :: "jsstring \<Rightarrow> (nat \<times> nat \<times> nat \<times> nat) option" where
  "spec_fields s =
     (case s of
        [h1, h2, c1, m1, m2, c2, s1, s2, c3, k1, k2, k3] \<Rightarrow>
          (if c1 = 0x3A \<and> c2 = 0x3A \<and> c3 = 0x2C then
             (case those (map spec_digit [h1, h2, m1, m2, s1, s2, k1, k2, k3]) of
                Some [a, b, c, d, e, f, g, h, i] \<Rightarrow>
                  Some (10 * a + b, 10 * c + d, 10 * e + f, 100 * g + 10 * h + i)
              | _ \<Rightarrow> None)
           else None)
      | _ \<Rightarrow> None)"

definition spec_seconds :: "jsstring \<Rightarrow> rat" where
  "spec_seconds s =
     (case spec_fields s of
        Some (hours, minutes, seconds, milliseconds) \<Rightarrow>
          of_nat hours * 3600 + of_nat minutes * 60 + of_nat seconds + of_nat milliseconds / 1000
      | None \<Rightarrow> 0)"

definition spec_startSeconds :: "token \<Rightarrow> rat" where
  "spec_startSeconds t = (case tok_timestamps t of None \<Rightarrow> 0 | Some ts \<Rightarrow> spec_seconds (ts_from ts))"

definition spec_endSeconds :: "token \<Rightarrow> rat" where
  "spec_endSeconds t = (case tok_timestamps t of None \<Rightarrow> 0 | Some ts \<Rightarrow> spec_seconds (ts_to ts))"

text \<open>
  The segment of a sentence: the texts concatenated, trimmed and collapsed; the rounded
  start of its first token and the rounded end of its last. A sentence with an empty text
  gives no segment.
\<close>

definition spec_segment_of :: "token list \<Rightarrow> segment list" where
  "spec_segment_of g =
     (case g of
        [] \<Rightarrow> []
      | first # _ \<Rightarrow>
          (let text = spec_collapse (spec_trim (concat (map tok_text g)))
           in if text = [] then []
              else [\<lparr>seg_text = text,
                     seg_start = Fin (of_int (spec_round (spec_startSeconds first))),
                     seg_end = Fin (of_int (spec_round (spec_endSeconds (last g))))\<rparr>]))"

definition spec_aggregate :: "token list \<Rightarrow> segment list" where
  "spec_aggregate toks = concat (map spec_segment_of (spec_sentences toks))"

text \<open>
  A token whose timestamps, where present and not empty, have the engine's format.
\<close>

definition canonicalOrEmpty :: "jsstring \<Rightarrow> bool" where
  "canonicalOrEmpty s \<longleftrightarrow> s = [] \<or> spec_fields s \<noteq> None"

definition wellTimed :: "token \<Rightarrow> bool" where
  "wellTimed t \<longleftrightarrow>
     (case tok_timestamps t of
        None \<Rightarrow> True
      | Some ts \<Rightarrow> canonicalOrEmpty (ts_from ts) \<and> canonicalOrEmpty (ts_to ts))"

subsection \<open>Times of tokens and of segments\<close>

definition tokenStart :: "token \<Rightarrow> jsnum" where
  "tokenStart t = startSeconds (tok_timestamps t)"

definition tokenEnd :: "token \<Rightarrow> jsnum" where
  "tokenEnd t = endSeconds (tok_timestamps t)"

text \<open>The parsed times of a token sequence, in order: each token's start, then its end.\<close>

definition tokenTimes :: "token list \<Rightarrow> jsnum list" where
  "tokenTimes toks = concat (map (\<lambda>t. [tokenStart t, tokenEnd t]) toks)"

definition segmentTimes :: "segment list \<Rightarrow> jsnum list" where
  "segmentTimes segs = concat (map (\<lambda>s. [seg_start s, seg_end s]) segs)"

section \<open>The \<^verbatim>\<open>transcribe-audio\<close> handler\<close>

text \<open>
  The temporary files of the handler, all in \<^verbatim>\<open>tmpdir()\<close>: \<open>Webm n\<close> is
  \<^verbatim>\<open>recording-n.webm\<close> and \<open>Wav n\<close> is \<^verbatim>\<open>n.wav\<close>, \<open>n\<close> a value of
  \<^verbatim>\<open>Date.now()\<close>.
\<close>

datatype tmpfile = Webm nat | Wav nat

text \<open>
  What the main process does that other components see: a call of the engine on a file, the
  return of that call, and a message to the renderer (\<^verbatim>\<open>webContents.send\<close>).
\<close>

datatype event = EngineInvoked tmpfile | IpcSend string jsnum | EngineReturned

text \<open>
  The state the handler reads and writes: the readiness flag, the files present in the
  temporary directory (their contents play no part), the console, and the events so far.
\<close>

record world =
  isWhisperInitialized :: bool
  files :: "tmpfile set"
  console :: "string list"
  trace :: "event list"

text \<open>
  What the collaborators do during one call: the two clock readings, whether
  \<^verbatim>\<open>writeFileSync\<close> throws, whether the converter signals \<^verbatim>\<open>error\<close> rather than
  \<^verbatim>\<open>end\<close>, the files whose removal is refused, the progress values the engine reports
  and how the engine call settles. A failed write or conversion is taken to leave no file.
\<close>

record env =
  clock_webm :: nat
  clock_wav :: nat
  write_outcome :: "jserror option"
  convert_outcome :: "jserror option"
  unlink_failures :: "tmpfile set"
  engine_progress :: "jsnum list"
  engine_outcome :: "jserror + token list"

definition notInitialized :: jserror where
  "notInitialized =
     JsError ''Whisper model not initialized. Please wait for initialization to complete.''"

text \<open>\<^verbatim>\<open>console.log\<close> and \<^verbatim>\<open>console.error\<close>: the first argument is recorded.\<close>

definition log :: "string \<Rightarrow> world \<Rightarrow> world" where
  "log m w = w\<lparr>console := console w @ [m]\<rparr>"

text \<open>\<^verbatim>\<open>unlinkSync\<close> throws when the file is missing or its removal is refused.\<close>

definition unlinkSync :: "env \<Rightarrow> tmpfile \<Rightarrow> world \<Rightarrow> jserror + world" where
  "unlinkSync e p w =
     (if p \<in> files w \<and> p \<notin> unlink_failures e then Inr (w\<lparr>files := files w - {p}\<rparr>)
      else Inl (JsError ''unlink failed''))"

text \<open>
  \<^verbatim>\<open>convertToWav\<close>: on \<^verbatim>\<open>end\<close> the input file is removed (a failure of the removal
  is logged) and the promise resolves with the output path; on \<^verbatim>\<open>error\<close> it rejects.
\<close>

definition convertToWav :: "env \<Rightarrow> tmpfile \<Rightarrow> world \<Rightarrow> (jserror + tmpfile) \<times> world" where
  "convertToWav e inputPath w =
     (let outputPath = Wav (clock_wav e)
      in case convert_outcome e of
           Some err \<Rightarrow> (Inl err, w)
         | None \<Rightarrow>
             (let w1 = w\<lparr>files := insert outputPath (files w)\<rparr>;
                  w2 = (case unlinkSync e inputPath w1 of
                          Inr w' \<Rightarrow> w'
                        | Inl _ \<Rightarrow> log ''Error cleaning up input file:'' w1)
              in (Inr outputPath, w2)))"

text \<open>The \<^verbatim>\<open>onProgress\<close> callback the handler passes to the engine.\<close>

definition onProgress :: "jsnum \<Rightarrow> world \<Rightarrow> world" where
  "onProgress progress w =
     (let w1 = log ''Transcription progress:'' w
      in w1\<lparr>trace := trace w1 @ [IpcSend ''transcription-progress'' progress]\<rparr>)"

text \<open>
  The engine call \<^verbatim>\<open>transcribe({..., inputPath, onProgress})\<close> of the external
  package: while it runs it calls \<^verbatim>\<open>onProgress\<close> on each progress value in turn, then
  the promise settles with the tokens or with an error.
\<close>

definition transcribe ::
  "env \<Rightarrow> tmpfile \<Rightarrow> (jsnum \<Rightarrow> world \<Rightarrow> world) \<Rightarrow> world \<Rightarrow> (jserror + token list) \<times> world" where
  "transcribe e inputPath callback w =
     (let w1 = w\<lparr>trace := trace w @ [EngineInvoked inputPath]\<rparr>;
          w2 = foldl (\<lambda>s progress. callback progress s) w1 (engine_progress e);
          w3 = w2\<lparr>trace := trace w2 @ [EngineReturned]\<rparr>
      in (engine_outcome e, w3))"

text \<open>
  The \<^verbatim>\<open>try\<close> block of the handler: its outcome, the value of \<^verbatim>\<open>tempWavFile\<close>
  when the block is left, and the state.
\<close>

definition tryBlock :: "env \<Rightarrow> world \<Rightarrow> (jserror + transcript) \<times> tmpfile option \<times> world" where
  "tryBlock e w =
     (let tempWebmFile = Webm (clock_webm e)
      in case write_outcome e of
           Some err \<Rightarrow> (Inl err, None, w)
         | None \<Rightarrow>
             (let w1 = log ''Converting to WAV...''
                         (log ''Saved WebM file:'' (w\<lparr>files := insert tempWebmFile (files w)\<rparr>))
              in case convertToWav e tempWebmFile w1 of
                   (Inl err, w2) \<Rightarrow> (Inl err, None, w2)
                 | (Inr tempWavFile, w2) \<Rightarrow>
                     (let w3 = log ''Starting transcription...'' (log ''Converted to WAV:'' w2)
                      in case transcribe e tempWavFile onProgress w3 of
                           (Inl err, w4) \<Rightarrow> (Inl err, Some tempWavFile, w4)
                         | (Inr transcription, w4) \<Rightarrow>
                             (Inr (buildResult transcription), Some tempWavFile,
                              log ''Processed sentences:'' w4))))"

text \<open>
  The handler: the readiness check, the \<^verbatim>\<open>try\<close> block, the \<^verbatim>\<open>catch\<close> clause that
  logs and rethrows, and the \<^verbatim>\<open>finally\<close> clause that removes \<^verbatim>\<open>tempWavFile\<close> when
  it is set, logging a failure of the removal.
\<close>

definition transcribe_audio :: "env \<Rightarrow> world \<Rightarrow> (jserror + transcript) \<times> world" where
  "transcribe_audio e w =
     (if \<not> isWhisperInitialized w then (Inl notInitialized, w)
      else
        (case tryBlock e w of
           (r, tempWavFile, w1) \<Rightarrow>
             (let w2 = (case r of Inl err \<Rightarrow> log ''Transcription error:'' w1 | Inr _ \<Rightarrow> w1);
                  w3 = (case tempWavFile of
                          None \<Rightarrow> w2
                        | Some p \<Rightarrow>
                            (case unlinkSync e p w2 of
                               Inr w' \<Rightarrow> w'
                             | Inl _ \<Rightarrow> log ''Error cleaning up temporary files:'' w2))
              in (r, w3))))"

section \<open>The progress listeners of the preload script\<close>

text \<open>
  A callback of the renderer is known by its identity. Each evaluation of the arrow function
  \<^verbatim>\<open>(_event, progress) => callback(progress)\<close> creates a new function object, with an
  identity of its own, that calls the callback it closes over.
\<close>

type_synonym callback = nat

record listener =
  lid :: nat
  wraps :: callback

text \<open>
  The renderer side: the next unused function identity, the listeners registered with
  \<^verbatim>\<open>ipcRenderer\<close> (channel and function, oldest first), and the calls the callbacks have
  received.
\<close>

record renderer =
  fresh :: nat
  listeners :: "(string \<times> listener) list"
  observed :: "(callback \<times> jsnum) list"

definition renderer0 :: renderer where
  "renderer0 = \<lparr>fresh = 0, listeners = [], observed = []\<rparr>"

definition newListener :: "callback \<Rightarrow> renderer \<Rightarrow> listener \<times> renderer" where
  "newListener cb r = (\<lparr>lid = fresh r, wraps = cb\<rparr>, r\<lparr>fresh := Suc (fresh r)\<rparr>)"

definition ipcRenderer_on :: "string \<Rightarrow> listener \<Rightarrow> renderer \<Rightarrow> renderer" where
  "ipcRenderer_on channel l r = r\<lparr>listeners := listeners r @ [(channel, l)]\<rparr>"

fun removeFirst :: "('a \<Rightarrow> bool) \<Rightarrow> 'a list \<Rightarrow> 'a list" where
  "removeFirst P [] = []"
| "removeFirst P (x # xs) = (if P x then xs else x # removeFirst P xs)"

text \<open>
  \<^verbatim>\<open>removeListener\<close> removes the most recently added registration of the very same
  function on the channel, if there is one.
\<close>

definition ipcRenderer_removeListener :: "string \<Rightarrow> listener \<Rightarrow> renderer \<Rightarrow> renderer" where
  "ipcRenderer_removeListener channel l r =
     r\<lparr>listeners :=
         rev (removeFirst (\<lambda>x. fst x = channel \<and> lid (snd x) = lid l) (rev (listeners r)))\<rparr>"

definition onTranscriptionProgress :: "callback \<Rightarrow> renderer \<Rightarrow> renderer" where
  "onTranscriptionProgress cb r =
     (case newListener cb r of (l, r1) \<Rightarrow> ipcRenderer_on ''transcription-progress'' l r1)"

definition offTranscriptionProgress :: "callback \<Rightarrow> renderer \<Rightarrow> renderer" where
  "offTranscriptionProgress cb r =
     (case newListener cb r of
        (l, r1) \<Rightarrow> ipcRenderer_removeListener ''transcription-progress'' l r1)"

text \<open>A message arriving on a channel: every listener of the channel calls its callback.\<close>

definition ipcRenderer_emit :: "string \<Rightarrow> jsnum \<Rightarrow> renderer \<Rightarrow> renderer" where
  "ipcRenderer_emit channel progress r =
     r\<lparr>observed := observed r @
         map (\<lambda>x. (wraps (snd x), progress)) (filter (\<lambda>x. fst x = channel) (listeners r))\<rparr>"

text \<open>The messages among some events reach the renderer in the order they were sent.\<close>

definition deliver :: "event list \<Rightarrow> renderer \<Rightarrow> renderer" where
  "deliver evs r =
     foldl (\<lambda>s ev. case ev of IpcSend channel v \<Rightarrow> ipcRenderer_emit channel v s | _ \<Rightarrow> s) r evs"

section \<open>Example inputs\<close>

definition mk_token :: "string \<Rightarrow> string \<Rightarrow> string \<Rightarrow> token" where
  "mk_token t f e = \<lparr>tok_text = js t, tok_timestamps = Some \<lparr>ts_from = js f, ts_to = js e\<rparr>\<rparr>"

definition hello_world :: "token list" where
  "hello_world =
     [mk_token ''Hello'' ''00:00:00,000'' ''00:00:00,500'',
      mk_token '' world.'' ''00:00:00,500'' ''00:00:01,000'']"

definition two_sentences :: "token list" where
  "two_sentences =
     [mk_token ''Hi.'' ''00:00:00,000'' ''00:00:01,000'',
      mk_token '' Bye.'' ''00:00:01,000'' ''00:00:02,500'']"

definition ready_world :: world where
  "ready_world = \<lparr>isWhisperInitialized = True, files = {}, console = [], trace = []\<rparr>"

definition sample_env :: env where
  "sample_env =
     \<lparr>clock_webm = 1000, clock_wav = 1001, write_outcome = None, convert_outcome = None,
      unlink_failures = {},
      engine_progress = [Fin (1 / 10), Fin (4 / 10), Fin (9 / 10), Fin 1],
      engine_outcome = Inr hello_world\<rparr>"

text \<open>
  Two sentences with white space of several kinds around and inside them, times that are
  not whole seconds, and a last token of white space only.
\<close>

definition greeting_and_question :: "token list" where
  "greeting_and_question =
     [\<lparr>tok_text = js '' Hello'',
       tok_timestamps = Some \<lparr>ts_from = js ''00:00:00,400'', ts_to = js ''00:00:00,900''\<rparr>\<rparr>,
      \<lparr>tok_text = [0x09, 0x0A] @ js ''world! '',
       tok_timestamps = Some \<lparr>ts_from = js ''00:00:00,900'', ts_to = js ''00:00:01,500''\<rparr>\<rparr>,
      \<lparr>tok_text = js '' How'',
       tok_timestamps = Some \<lparr>ts_from = js ''00:00:02,400'', ts_to = js ''00:00:02,800''\<rparr>\<rparr>,
      \<lparr>tok_text = js ''  are   you?'',
       tok_timestamps = Some \<lparr>ts_from = js ''00:00:02,800'', ts_to = js ''00:01:03,499''\<rparr>\<rparr>,
      \<lparr>tok_text = js ''  '',
       tok_timestamps = Some \<lparr>ts_from = js ''00:01:03,499'', ts_to = js ''00:01:04,000''\<rparr>\<rparr>]"

text \<open>
  Every white-space code unit once, and a token without timestamps whose text has them
  before, between and after two words; U+200B is no white space and stays.
\<close>

definition whiteSpaceUnits :: jsstring where
  "whiteSpaceUnits =
     [0x09, 0x0A, 0x0B, 0x0C, 0x0D, 0x20, 0xA0, 0x1680, 0x2000, 0x2001, 0x2002, 0x2003,
      0x2004, 0x2005, 0x2006, 0x2007, 0x2008, 0x2009, 0x200A, 0x2028, 0x2029, 0x202F,
      0x205F, 0x3000, 0xFEFF]"

definition spaced_out :: "token list" where
  "spaced_out =
     [\<lparr>tok_text = whiteSpaceUnits @ js ''a'' @ whiteSpaceUnits @ [0x200B] @ js ''b.''
                   @ whiteSpaceUnits,
       tok_timestamps = None\<rparr>]"

section \<open>Properties of the string operations\<close>

lemma dropWhile_keeps_last:
  "xs \<noteq> [] \<Longrightarrow> \<not> P (last xs) \<Longrightarrow> dropWhile P xs \<noteq> [] \<and> last (dropWhile P xs) = last xs"
  by (induction xs) (auto split: if_splits)

lemma collapse_last:
  "s \<noteq> [] \<Longrightarrow> \<not> isWhiteSpace (last s) \<Longrightarrow>
   collapseWhiteSpace s \<noteq> [] \<and> last (collapseWhiteSpace s) = last s"
proof (induction s rule: collapseWhiteSpace.induct)
  case 1
  then show ?case by simp
next
  case (2 c cs)
  show ?case
  proof (cases "isWhiteSpace c")
    case True
    with "2.prems" have cs: "cs \<noteq> []" "\<not> isWhiteSpace (last cs)" by (auto split: if_splits)
    from dropWhile_keeps_last [of cs isWhiteSpace] cs
    have d: "dropWhile isWhiteSpace cs \<noteq> []" "last (dropWhile isWhiteSpace cs) = last cs"
      by simp_all
    from "2.IH"(1) [OF True d(1)] cs d show ?thesis using True by simp
  next
    case False
    show ?thesis
    proof (cases "cs = []")
      case True
      then show ?thesis using False by simp
    next
      case nonempty: False
      with "2.prems" have "\<not> isWhiteSpace (last cs)" by simp
      from "2.IH"(2) [OF False nonempty this] show ?thesis using False nonempty by simp
    qed
  qed
qed

lemma collapse_hd:
  "s \<noteq> [] \<Longrightarrow> \<not> isWhiteSpace (hd s) \<Longrightarrow> hd (collapseWhiteSpace s) = hd s"
  by (cases s) simp_all

lemma collapse_Nil_iff: "collapseWhiteSpace s = [] \<longleftrightarrow> s = []"
  by (cases s) simp_all

lemma all_dropWhile: "(\<forall>x\<in>set (dropWhile P s). P x) \<longleftrightarrow> (\<forall>x\<in>set s. P x)"
  by (induction s) auto

lemma trim_Nil_iff: "trim s = [] \<longleftrightarrow> list_all isWhiteSpace s"
  by (simp add: trim_def list_all_iff all_dropWhile)

lemma trim_ends:
  assumes "trim s \<noteq> []"
  shows "\<not> isWhiteSpace (hd (trim s))" and "\<not> isWhiteSpace (last (trim s))"
proof -
  let ?d = "dropWhile isWhiteSpace s"
  let ?r = "dropWhile isWhiteSpace (rev ?d)"
  have r: "?r \<noteq> []" using assms by (simp add: trim_def)
  have d: "?d \<noteq> []"
  proof
    assume "?d = []"
    then have "?r = []" by (simp add: all_dropWhile)
    with r show False by simp
  qed
  have "\<not> isWhiteSpace (hd ?r)" using r by (rule hd_dropWhile)
  then show "\<not> isWhiteSpace (last (trim s))" using r by (simp add: trim_def last_rev)
  have "\<not> isWhiteSpace (hd ?d)" using d by (rule hd_dropWhile)
  then have "\<not> isWhiteSpace (last (rev ?d))" using d by (simp add: last_rev)
  with dropWhile_keeps_last [of "rev ?d" isWhiteSpace] d
  have "last ?r = last (rev ?d)" by simp
  then have "last ?r = hd ?d" using d by (simp add: last_rev)
  then show "\<not> isWhiteSpace (hd (trim s))"
    using r \<open>\<not> isWhiteSpace (hd ?d)\<close> by (simp add: trim_def hd_rev)
qed

lemma trim_fixed:
  assumes "s \<noteq> []" "\<not> isWhiteSpace (hd s)" "\<not> isWhiteSpace (last s)"
  shows "trim s = s"
proof -
  have 1: "dropWhile isWhiteSpace s = s" using assms by (cases s) simp_all
  have "rev s \<noteq> []" "\<not> isWhiteSpace (hd (rev s))" using assms by (simp_all add: hd_rev)
  then have "dropWhile isWhiteSpace (rev s) = rev s" by (cases "rev s") simp_all
  with 1 show ?thesis by (simp add: trim_def)
qed

section \<open>The loop and its recursive form\<close>

lemma join_empty_sep: "join [] xs = concat xs"
  by (induction "[] :: jsstring" xs rule: join.induct) simp_all

lemma forEach_body_boundary:
  assumes "closesSentence t \<or> int k = int n - 1"
  shows "forEach_body n st (t, k) =
           \<lparr>currentSentence = [], sentences = sentences st @ emitSentence (currentSentence st @ [t])\<rparr>"
proof -
  have hd_eq: "(case currentSentence st @ [t] of [] \<Rightarrow> None | u # _ \<Rightarrow> tok_timestamps u)
               = tok_timestamps (hd (currentSentence st @ [t]))"
    by (cases "currentSentence st") simp_all
  show ?thesis
    using assms
    by (simp add: forEach_body_def Let_def closesSentence_def emitSentence_def sentenceText_def
        join_empty_sep hd_eq)
qed

lemma forEach_body_inside:
  assumes "\<not> closesSentence t" "int k \<noteq> int n - 1"
  shows "forEach_body n st (t, k) =
           \<lparr>currentSentence = currentSentence st @ [t], sentences = sentences st\<rparr>"
  using assms by (simp add: forEach_body_def Let_def closesSentence_def)

lemma forEach_refines:
  "n = k + length toks \<Longrightarrow>
   sentences (foldl (forEach_body n) st (zip toks [k..<n]))
     = sentences st @ groupFrom (currentSentence st) toks"
proof (induction toks arbitrary: k st)
  case Nil
  then show ?case by simp
next
  case (Cons t ts)
  have n: "n = Suc k + length ts" using Cons.prems by simp
  have "k < n" using Cons.prems by simp
  then have upt: "[k..<n] = k # [Suc k..<n]" by (rule upt_conv_Cons)
  have "int n = int k + 1 + int (length ts)" using Cons.prems by simp
  then have last_iff: "int k = int n - 1 \<longleftrightarrow> ts = []" by auto
  show ?case
  proof (cases "closesSentence t \<or> ts = []")
    case True
    then have b: "closesSentence t \<or> int k = int n - 1" using last_iff by simp
    show ?thesis
      using True by (simp add: upt forEach_body_boundary [OF b] Cons.IH [OF n])
  next
    case False
    then have nb: "\<not> closesSentence t" and nl: "int k \<noteq> int n - 1" using last_iff by simp_all
    show ?thesis
      using False by (simp add: upt forEach_body_inside [OF nb nl] Cons.IH [OF n])
  qed
qed

lemma groupSentences_groupFrom: "groupSentences toks = groupFrom [] toks"
  using forEach_refines [of "length toks" 0 toks "\<lparr>currentSentence = [], sentences = []\<rparr>"]
  by (simp add: groupSentences_def)

section \<open>Texts of the segments\<close>

lemma sentenceText_trimmed:
  assumes "sentenceText buf \<noteq> []"
  shows "trim (sentenceText buf) = sentenceText buf"
proof -
  let ?t = "trim (concat (map tok_text buf))"
  have t: "?t \<noteq> []" using assms by (auto simp: sentenceText_def)
  have "\<not> isWhiteSpace (hd ?t)" "\<not> isWhiteSpace (last ?t)" using trim_ends [OF t] by simp_all
  then have "\<not> isWhiteSpace (hd (collapseWhiteSpace ?t))"
    "\<not> isWhiteSpace (last (collapseWhiteSpace ?t))"
    using t collapse_hd [of ?t] collapse_last [of ?t] by simp_all
  then show ?thesis using assms by (simp add: sentenceText_def trim_fixed)
qed

lemma groupFrom_text:
  "s \<in> set (groupFrom buf toks) \<Longrightarrow> seg_text s \<noteq> [] \<and> trim (seg_text s) = seg_text s"
proof (induction buf toks rule: groupFrom.induct)
  case (1 buf)
  then show ?case by simp
next
  case (2 buf t ts)
  then show ?case
    by (auto simp: emitSentence_def sentenceText_trimmed split: if_splits)
qed

lemma groupFrom_append:
  "xs \<noteq> [] \<Longrightarrow> closesSentence (last xs) \<Longrightarrow>
   groupFrom buf (xs @ ys) = groupFrom buf xs @ groupFrom [] ys"
proof (induction xs arbitrary: buf)
  case Nil
  then show ?case by simp
next
  case (Cons x xs)
  show ?case
  proof (cases "xs = []")
    case True
    then show ?thesis using Cons.prems by simp
  next
    case False
    then show ?thesis using Cons by simp
  qed
qed

lemma sentenceText_blank:
  "list_all (\<lambda>t. list_all isWhiteSpace (tok_text t)) buf \<Longrightarrow> sentenceText buf = []"
  by (simp add: sentenceText_def collapse_Nil_iff trim_Nil_iff list_all_iff)

lemma not_endsSentence_Nil: "\<not> endsSentence []"
  by (simp add: endsSentence_def)

lemma groupFrom_blank:
  "list_all (\<lambda>t. list_all isWhiteSpace (tok_text t)) (buf @ ws) \<Longrightarrow> groupFrom buf ws = []"
proof (induction ws arbitrary: buf)
  case Nil
  then show ?case by simp
next
  case (Cons w ws)
  from Cons.prems have "trim (tok_text w) = []" by (simp add: trim_Nil_iff)
  then have nb: "\<not> closesSentence w" by (simp add: closesSentence_def not_endsSentence_Nil)
  from Cons.prems have blank: "list_all (\<lambda>t. list_all isWhiteSpace (tok_text t)) (buf @ [w])"
    by simp
  show ?case
  proof (cases "ws = []")
    case True
    then show ?thesis using sentenceText_blank [OF blank] by (simp add: emitSentence_def)
  next
    case False
    then show ?thesis using nb Cons.IH [of "buf @ [w]"] Cons.prems by simp
  qed
qed

section \<open>Times of the segments\<close>

lemma Math_round_mono: "jle a b \<Longrightarrow> jle (Math_round a) (Math_round b)"
  by (cases a; cases b) (simp_all add: floor_mono)

lemma sorted_wrt_subseq: "subseq xs ys \<Longrightarrow> sorted_wrt P ys \<Longrightarrow> sorted_wrt P xs"
proof (induction rule: list_emb.induct)
  case (list_emb_Nil ys)
  then show ?case by simp
next
  case (list_emb_Cons xs ys y)
  then show ?case by simp
next
  case (list_emb_Cons2 x y xs ys)
  then have "set xs \<subseteq> set ys" by (auto dest: list_emb_set)
  with list_emb_Cons2 show ?case by auto
qed

lemma tokenTimes_Nil: "tokenTimes [] = []"
  by (simp add: tokenTimes_def)

lemma tokenTimes_Cons: "tokenTimes (t # ts) = tokenStart t # tokenEnd t # tokenTimes ts"
  by (simp add: tokenTimes_def)

lemma tokenTimes_append: "tokenTimes (xs @ ys) = tokenTimes xs @ tokenTimes ys"
  by (simp add: tokenTimes_def)

lemma segmentTimes_append: "segmentTimes (xs @ ys) = segmentTimes xs @ segmentTimes ys"
  by (simp add: segmentTimes_def)

lemma emit_times:
  "subseq (segmentTimes (emitSentence (buf @ [t]))) (map Math_round (tokenTimes (buf @ [t])))"
proof (cases buf)
  case Nil
  then show ?thesis
    by (simp add: emitSentence_def segmentTimes_def tokenTimes_def tokenStart_def tokenEnd_def)
next
  case (Cons b bs)
  have "subseq [Math_round (tokenEnd t)] (map Math_round (tokenEnd b # tokenTimes (bs @ [t])))"
    by (simp add: subseq_singleton_left tokenTimes_def)
  then show ?thesis
    using Cons
    by (simp add: emitSentence_def segmentTimes_def tokenTimes_def tokenStart_def tokenEnd_def)
qed

lemma groupFrom_times:
  "subseq (segmentTimes (groupFrom buf toks)) (map Math_round (tokenTimes (buf @ toks)))"
proof (induction toks arbitrary: buf)
  case Nil
  then show ?case by (simp add: segmentTimes_def)
next
  case (Cons t ts)
  show ?case
  proof (cases "closesSentence t \<or> ts = []")
    case True
    have "subseq (segmentTimes (emitSentence (buf @ [t])) @ segmentTimes (groupFrom [] ts))
            (map Math_round (tokenTimes (buf @ [t])) @ map Math_round (tokenTimes ([] @ ts)))"
      by (rule list_emb_append_mono [OF emit_times Cons.IH])
    then show ?thesis
      using True
      by (simp add: segmentTimes_append tokenTimes_append tokenTimes_Cons tokenTimes_Nil)
  next
    case False
    then show ?thesis using Cons.IH [of "buf @ [t]"] by simp
  qed
qed

lemma emit_starts:
  "subseq (map seg_start (emitSentence (buf @ [t]))) (map (\<lambda>a. Math_round (tokenStart a)) (buf @ [t]))"
  by (cases buf) (simp_all add: emitSentence_def tokenStart_def)

lemma groupFrom_starts:
  "subseq (map seg_start (groupFrom buf toks)) (map (\<lambda>a. Math_round (tokenStart a)) (buf @ toks))"
proof (induction toks arbitrary: buf)
  case Nil
  then show ?case by simp
next
  case (Cons t ts)
  show ?case
  proof (cases "closesSentence t \<or> ts = []")
    case True
    have "subseq (map seg_start (emitSentence (buf @ [t])) @ map seg_start (groupFrom [] ts))
            (map (\<lambda>a. Math_round (tokenStart a)) (buf @ [t])
             @ map (\<lambda>a. Math_round (tokenStart a)) ([] @ ts))"
      by (rule list_emb_append_mono [OF emit_starts Cons.IH])
    then show ?thesis using True by simp
  next
    case False
    then show ?thesis using Cons.IH [of "buf @ [t]"] by simp
  qed
qed

lemma sorted_round: "sorted_wrt jle xs \<Longrightarrow> sorted_wrt jle (map Math_round xs)"
  by (simp add: sorted_wrt_map sorted_wrt_mono_rel [of xs jle] Math_round_mono)

lemma segmentTimes_sorted:
  "sorted_wrt jle (segmentTimes segs) \<Longrightarrow>
   (\<forall>s\<in>set segs. jle (seg_start s) (seg_end s)) \<and>
   sorted_wrt (\<lambda>a b. jle (seg_end a) (seg_start b)) segs"
  by (induction segs) (auto simp: segmentTimes_def)

lemma groupSentences_times_sorted:
  assumes "sorted_wrt jle (tokenTimes toks)"
  shows "sorted_wrt jle (segmentTimes (groupSentences toks))"
  using sorted_wrt_subseq [OF groupFrom_times [of "[]" toks, simplified] sorted_round [OF assms]]
  by (simp add: groupSentences_groupFrom)

lemma groupSentences_starts_sorted:
  assumes "sorted_wrt jle (map tokenStart toks)"
  shows "sorted_wrt jle (map seg_start (groupSentences toks))"
proof -
  have "sorted_wrt jle (map Math_round (map tokenStart toks))" by (rule sorted_round [OF assms])
  then have "sorted_wrt jle (map (\<lambda>a. Math_round (tokenStart a)) ([] @ toks))"
    by (simp add: comp_def)
  from sorted_wrt_subseq [OF groupFrom_starts this] show ?thesis
    by (simp add: groupSentences_groupFrom)
qed

section \<open>Timestamp parsing never throws and never logs\<close>

lemma split_nonempty: "split sep s \<noteq> []"
  by (induction s) (auto split: list.splits)

lemma timestampToSeconds_try_returns: "\<exists>v. timestampToSeconds_try ts = Inr v"
proof -
  obtain p ps where "split 0x2C ts = p # ps"
    using split_nonempty [of "0x2C" ts] by (cases "split 0x2C ts") auto
  then show ?thesis by (simp add: timestampToSeconds_try_def element_def Let_def)
qed

lemma timestampToSeconds_silent: "snd (timestampToSeconds ts) = []"
  using timestampToSeconds_try_returns [of ts] by (auto simp: timestampToSeconds_def)

text \<open>
  Claim C1. The well-formed timestamp \<^verbatim>\<open>"00:01:02,500"\<close> gives 62.5 and nothing is
  logged. The claim continues: every malformed timestamp gives 0 and is logged. On the
  timestamp \<^verbatim>\<open>"00:01:02"\<close>, which lacks the comma, \<^verbatim>\<open>ms\<close> is \<^verbatim>\<open>undefined\<close>,
  \<^verbatim>\<open>parseInt\<close> gives NaN, no exception is raised, and the function returns NaN with
  nothing logged.
\<close>

theorem timestampToSeconds_missing_comma:
  "timestampToSeconds (js ''00:01:02,500'') = (Fin (125 / 2), []) \<and>
   timestampToSeconds (js ''00:01:02'') = (NaN, [])"
  by code_simp

section \<open>The loop computes the specified aggregation\<close>

lemma spec_dropTrailing_blank: "list_all isWhiteSpace s \<Longrightarrow> spec_dropTrailing s = []"
  by (cases s) simp_all

lemma rev_dropWhile_rev: "rev (dropWhile isWhiteSpace (rev s)) = spec_dropTrailing s"
proof (induction s)
  case Nil
  then show ?case by simp
next
  case (Cons c cs)
  show ?case
  proof (cases "list_all isWhiteSpace cs")
    case True
    then have "dropWhile isWhiteSpace (rev cs @ [c]) = dropWhile isWhiteSpace [c]"
      by (intro dropWhile_append2) (simp add: list_all_iff)
    then show ?thesis using True by (simp add: spec_dropTrailing_blank)
  next
    case False
    then obtain x where "x \<in> set (rev cs)" "\<not> isWhiteSpace x" by (auto simp: list_all_iff)
    then have "dropWhile isWhiteSpace (rev cs @ [c]) = dropWhile isWhiteSpace (rev cs) @ [c]"
      by (rule dropWhile_append1)
    then show ?thesis using False Cons.IH by simp
  qed
qed

lemma trim_spec: "trim s = spec_trim s"
  by (simp add: trim_def spec_trim_def rev_dropWhile_rev)

lemma endsSentence_spec: "endsSentence (trim s) = spec_endsInPunctuation s"
proof (cases "spec_trim s = []")
  case True
  then show ?thesis by (simp add: endsSentence_def spec_endsInPunctuation_def trim_spec)
next
  case False
  then obtain c r where r: "rev (spec_trim s) = c # r" by (cases "rev (spec_trim s)") auto
  then have "last (spec_trim s) = c" using False by (metis last_rev list.sel(1) rev_rev_ident hd_rev)
  then show ?thesis
    using False r by (auto simp: endsSentence_def spec_endsInPunctuation_def trim_spec js_def)
qed

lemma collapse_spec: "collapseWhiteSpace s = spec_collapse s"
proof (induction s rule: spec_collapse.induct)
  case 1
  then show ?case by simp
next
  case (2 c)
  then show ?case by simp
next
  case (3 c d cs)
  then show ?case by auto
qed

lemma round_spec: "Math_round (Fin q) = Fin (of_int (spec_round q))"
proof -
  have "\<lfloor>q + 1 / 2\<rfloor> = spec_round q"
    unfolding spec_round_def by (rule floor_unique) (auto; linarith)+
  then show ?thesis by simp
qed

lemma spec_digit_cases:
  "spec_digit d = Some v \<Longrightarrow>
     d = 0x30 \<and> v = 0 \<or> d = 0x31 \<and> v = 1 \<or> d = 0x32 \<and> v = 2 \<or> d = 0x33 \<and> v = 3 \<or>
     d = 0x34 \<and> v = 4 \<or> d = 0x35 \<and> v = 5 \<or> d = 0x36 \<and> v = 6 \<or> d = 0x37 \<and> v = 7 \<or>
     d = 0x38 \<and> v = 8 \<or> d = 0x39 \<and> v = 9"
  by (simp add: spec_digit_def js_def split: if_splits)

lemma spec_digit_unat: "spec_digit d = Some v \<Longrightarrow> unat d = 48 + v \<and> v < 10"
  using spec_digit_cases [of d v] by auto

lemma spec_digit_facts:
  assumes "spec_digit d = Some v"
  shows "isDigit d" "\<not> isWhiteSpace d" "digitValue 10 d = Some v" "isRadixDigit 10 d"
    "d \<noteq> 0x2C" "d \<noteq> 0x3A" "d \<noteq> 0x2B" "d \<noteq> 0x2D" "d \<noteq> 0x2E"
    "d \<noteq> 0x78" "d \<noteq> 0x58" "d \<noteq> 0x6F" "d \<noteq> 0x4F" "d \<noteq> 0x62" "d \<noteq> 0x42"
  using spec_digit_unat [OF assms]
  by (simp_all add: isDigit_def isWhiteSpace_def digitValue_def isRadixDigit_def
      word_le_nat_alt word_unat_eq_iff)

lemma Number_two_digits:
  assumes "spec_digit a = Some x" "spec_digit b = Some y"
  shows "Number [a, b] = Fin (of_nat (10 * x + y))"
  using spec_digit_facts [OF assms(1)] spec_digit_facts [OF assms(2)]
  by (simp add: Number_def trim_def parseUnsignedDecimal_def js_def parseExponent_def
      digitsValue_def scale10_def Let_def)

lemma parseInt_three_digits:
  assumes "spec_digit a = Some x" "spec_digit b = Some y" "spec_digit c = Some z"
  shows "parseInt (Some [a, b, c]) = Fin (of_nat (100 * x + 10 * y + z))"
  using spec_digit_facts [OF assms(1)] spec_digit_facts [OF assms(2)] spec_digit_facts [OF assms(3)]
  by (simp add: parseInt_def trimStart_def digitsValue_def Let_def)

lemma spec_fields_shape:
  assumes "spec_fields s = Some (hh, mm, ss, ms)"
  obtains h1 h2 m1 m2 s1 s2 k1 k2 k3 a b c d e f g h i where
    "s = [h1, h2, 0x3A, m1, m2, 0x3A, s1, s2, 0x2C, k1, k2, k3]"
    "spec_digit h1 = Some a" "spec_digit h2 = Some b" "spec_digit m1 = Some c"
    "spec_digit m2 = Some d" "spec_digit s1 = Some e" "spec_digit s2 = Some f"
    "spec_digit k1 = Some g" "spec_digit k2 = Some h" "spec_digit k3 = Some i"
    "hh = 10 * a + b" "mm = 10 * c + d" "ss = 10 * e + f" "ms = 100 * g + 10 * h + i"
  using assms
  by (auto simp: spec_fields_def split: list.splits if_splits option.splits)

lemma timestampToSeconds_canonical:
  assumes "spec_fields s = Some (hh, mm, ss, ms)"
  shows "fst (timestampToSeconds s) = Fin (spec_seconds s)"
proof -
  from assms obtain h1 h2 m1 m2 s1 s2 k1 k2 k3 a b c d e f g h i where
    s: "s = [h1, h2, 0x3A, m1, m2, 0x3A, s1, s2, 0x2C, k1, k2, k3]"
    and dg: "spec_digit h1 = Some a" "spec_digit h2 = Some b" "spec_digit m1 = Some c"
    "spec_digit m2 = Some d" "spec_digit s1 = Some e" "spec_digit s2 = Some f"
    "spec_digit k1 = Some g" "spec_digit k2 = Some h" "spec_digit k3 = Some i"
    and v: "hh = 10 * a + b" "mm = 10 * c + d" "ss = 10 * e + f" "ms = 100 * g + 10 * h + i"
    by (rule spec_fields_shape)
  note nc = dg [THEN spec_digit_facts(5)] dg [THEN spec_digit_facts(6)]
  have comma: "split 0x2C s = [[h1, h2, 0x3A, m1, m2, 0x3A, s1, s2], [k1, k2, k3]]"
    using nc by (simp add: s)
  have colon: "split 0x3A [h1, h2, 0x3A, m1, m2, 0x3A, s1, s2] = [[h1, h2], [m1, m2], [s1, s2]]"
    using nc by simp
  have "timestampToSeconds_try s =
          Inr (Fin (of_nat hh * 3600 + of_nat mm * 60 + of_nat ss + of_nat ms / 1000))"
    by (simp add: timestampToSeconds_try_def comma colon element_def operand_def Let_def
        Number_two_digits [OF dg(1) dg(2)] Number_two_digits [OF dg(3) dg(4)]
        Number_two_digits [OF dg(5) dg(6)] parseInt_three_digits [OF dg(7) dg(8) dg(9)] v
        del: split.simps)
  then show ?thesis using assms by (simp add: timestampToSeconds_def spec_seconds_def)
qed

lemma spec_fields_Nil: "spec_fields [] = None"
  by (simp add: spec_fields_def)

lemma startSeconds_spec:
  "wellTimed t \<Longrightarrow> startSeconds (tok_timestamps t) = Fin (spec_startSeconds t)"
  by (auto simp: wellTimed_def startSeconds_def spec_startSeconds_def canonicalOrEmpty_def
      spec_seconds_def spec_fields_Nil timestampToSeconds_canonical split: option.splits)

lemma endSeconds_spec:
  "wellTimed t \<Longrightarrow> endSeconds (tok_timestamps t) = Fin (spec_endSeconds t)"
  by (auto simp: wellTimed_def endSeconds_def spec_endSeconds_def canonicalOrEmpty_def
      spec_seconds_def spec_fields_Nil timestampToSeconds_canonical split: option.splits)

lemma closesSentence_spec: "closesSentence t = spec_isBoundary t"
  by (simp add: closesSentence_def spec_isBoundary_def endsSentence_spec)

lemma sentenceText_spec:
  "sentenceText g = spec_collapse (spec_trim (concat (map tok_text g)))"
  by (simp add: sentenceText_def trim_spec collapse_spec)

lemma emitSentence_texts: "map seg_text (emitSentence g) = map seg_text (spec_segment_of g)"
  by (cases g) (simp_all add: emitSentence_def spec_segment_of_def sentenceText_spec Let_def)

lemma emitSentence_spec:
  assumes "list_all wellTimed g"
  shows "emitSentence g = spec_segment_of g"
proof (cases g)
  case Nil
  then show ?thesis by (simp add: emitSentence_def spec_segment_of_def)
next
  case (Cons t ts)
  then have "wellTimed t" "wellTimed (last g)"
    using assms by (auto simp: list_all_iff)
  then have "startSeconds (tok_timestamps t) = Fin (spec_startSeconds t)"
    "endSeconds (tok_timestamps (last g)) = Fin (spec_endSeconds (last g))"
    by (simp_all add: startSeconds_spec endSeconds_spec)
  then show ?thesis
    using Cons
    by (simp add: emitSentence_def spec_segment_of_def sentenceText_spec round_spec Let_def
        del: Math_round.simps)
qed

lemma spec_sentences_nonempty: "toks \<noteq> [] \<Longrightarrow> spec_sentences toks \<noteq> []"
  by (cases toks) (simp_all split: list.splits)

lemma concat_spec_sentences: "concat (spec_sentences toks) = toks"
  by (induction toks) (auto split: list.splits)

lemma groupFrom_sentences:
  "toks \<noteq> [] \<Longrightarrow>
   groupFrom buf toks
     = concat (map emitSentence ((buf @ hd (spec_sentences toks)) # tl (spec_sentences toks)))"
proof (induction toks arbitrary: buf)
  case Nil
  then show ?case by simp
next
  case (Cons t ts)
  show ?case
  proof (cases "ts = []")
    case True
    then show ?thesis by (simp add: closesSentence_spec)
  next
    case False
    then obtain g gs where gs: "spec_sentences ts = g # gs"
      using spec_sentences_nonempty [of ts] by (cases "spec_sentences ts") auto
    show ?thesis
    proof (cases "spec_isBoundary t")
      case True
      then show ?thesis
        using False gs Cons.IH [OF False, of "[]"] by (simp add: closesSentence_spec)
    next
      case nb: False
      then show ?thesis
        using False gs Cons.IH [OF False, of "buf @ [t]"] by (simp add: closesSentence_spec)
    qed
  qed
qed

lemma groupSentences_sentences:
  "groupSentences toks = concat (map emitSentence (spec_sentences toks))"
proof (cases "toks = []")
  case True
  then show ?thesis by (simp add: groupSentences_groupFrom)
next
  case False
  then show ?thesis
    using groupFrom_sentences [OF False, of "[]"] spec_sentences_nonempty [OF False]
    by (simp add: groupSentences_groupFrom)
qed

lemma groupSentences_texts:
  "map seg_text (groupSentences toks) = map seg_text (spec_aggregate toks)"
  by (simp add: groupSentences_sentences spec_aggregate_def map_concat comp_def
      emitSentence_texts)

lemma groupSentences_wellTimed:
  assumes "list_all wellTimed toks"
  shows "groupSentences toks = spec_aggregate toks"
proof -
  have "list_all wellTimed (concat (spec_sentences toks))"
    using assms by (simp add: concat_spec_sentences)
  then have "\<forall>g\<in>set (spec_sentences toks). list_all wellTimed g"
    by (auto simp: list_all_iff)
  then have "map emitSentence (spec_sentences toks) = map spec_segment_of (spec_sentences toks)"
    by (intro map_cong refl) (simp add: emitSentence_spec)
  then show ?thesis by (simp only: groupSentences_sentences spec_aggregate_def)
qed

text \<open>
  Claim C8. The loop of the handler computes the aggregation the specification describes.
  For every token sequence the sentences and their texts are the specified ones: a
  boundary exactly at a token whose trimmed text ends in \<^verbatim>\<open>.\<close>, \<^verbatim>\<open>!\<close> or \<^verbatim>\<open>?\<close>
  and at the last token, the text the concatenation of the buffered texts, trimmed, with
  runs of white space collapsed to one space. When the timestamps have the engine's format
  (or are empty or absent) the start and the end are the specified ones as well: the
  seconds of the first token's start and of the boundary token's end, rounded. The tokens
  \<^verbatim>\<open>"Hello"\<close>, \<^verbatim>\<open>" world."\<close> give the one segment
  \<^verbatim>\<open>{text: "Hello world.", start: 0, end: 1}\<close>, the single token
  \<^verbatim>\<open>"No punctuation here"\<close> gives \<^verbatim>\<open>{text: "No punctuation here", start: 0, end: 2}\<close>;
  two further inputs show a boundary inside the input, white space of every kind, times
  that are rounded, and absent timestamps.
\<close>

theorem grouping_as_specified:
  "map seg_text (groupSentences toks) = map seg_text (spec_aggregate toks) \<and>
   (list_all wellTimed toks \<longrightarrow> groupSentences toks = spec_aggregate toks) \<and>
   groupSentences
     [\<lparr>tok_text = js ''Hello'',
       tok_timestamps = Some \<lparr>ts_from = js ''00:00:00,000'', ts_to = js ''00:00:00,500''\<rparr>\<rparr>,
      \<lparr>tok_text = js '' world.'',
       tok_timestamps = Some \<lparr>ts_from = js ''00:00:00,500'', ts_to = js ''00:00:01,000''\<rparr>\<rparr>]
     = [\<lparr>seg_text = js ''Hello world.'', seg_start = Fin 0, seg_end = Fin 1\<rparr>] \<and>
   groupSentences
     [\<lparr>tok_text = js ''No punctuation here'',
       tok_timestamps = Some \<lparr>ts_from = js ''00:00:00,000'', ts_to = js ''00:00:02,000''\<rparr>\<rparr>]
     = [\<lparr>seg_text = js ''No punctuation here'', seg_start = Fin 0, seg_end = Fin 2\<rparr>] \<and>
   groupSentences greeting_and_question
     = [\<lparr>seg_text = js ''Hello world!'', seg_start = Fin 0, seg_end = Fin 2\<rparr>,
        \<lparr>seg_text = js ''How are you?'', seg_start = Fin 2, seg_end = Fin 63\<rparr>] \<and>
   groupSentences spaced_out
     = [\<lparr>seg_text = js ''a '' @ [0x200B] @ js ''b.'', seg_start = Fin 0, seg_end = Fin 0\<rparr>]"
proof (intro conjI impI)
  show "map seg_text (groupSentences toks) = map seg_text (spec_aggregate toks)"
    by (rule groupSentences_texts)
  show "groupSentences toks = spec_aggregate toks" if "list_all wellTimed toks"
    using that by (rule groupSentences_wellTimed)
  show "groupSentences
     [\<lparr>tok_text = js ''Hello'',
       tok_timestamps = Some \<lparr>ts_from = js ''00:00:00,000'', ts_to = js ''00:00:00,500''\<rparr>\<rparr>,
      \<lparr>tok_text = js '' world.'',
       tok_timestamps = Some \<lparr>ts_from = js ''00:00:00,500'', ts_to = js ''00:00:01,000''\<rparr>\<rparr>]
     = [\<lparr>seg_text = js ''Hello world.'', seg_start = Fin 0, seg_end = Fin 1\<rparr>]"
    by code_simp
  show "groupSentences
     [\<lparr>tok_text = js ''No punctuation here'',
       tok_timestamps = Some \<lparr>ts_from = js ''00:00:00,000'', ts_to = js ''00:00:02,000''\<rparr>\<rparr>]
     = [\<lparr>seg_text = js ''No punctuation here'', seg_start = Fin 0, seg_end = Fin 2\<rparr>]"
    by code_simp
  show "groupSentences greeting_and_question
     = [\<lparr>seg_text = js ''Hello world!'', seg_start = Fin 0, seg_end = Fin 2\<rparr>,
        \<lparr>seg_text = js ''How are you?'', seg_start = Fin 2, seg_end = Fin 63\<rparr>]"
    by code_simp
  show "groupSentences spaced_out
     = [\<lparr>seg_text = js ''a '' @ [0x200B] @ js ''b.'', seg_start = Fin 0, seg_end = Fin 0\<rparr>]"
    by code_simp
qed

theorem grouping_as_specified_witness:
  "list_all wellTimed greeting_and_question \<and>
   groupSentences greeting_and_question = spec_aggregate greeting_and_question \<and>
   spec_aggregate greeting_and_question
     = [\<lparr>seg_text = js ''Hello world!'', seg_start = Fin 0, seg_end = Fin 2\<rparr>,
        \<lparr>seg_text = js ''How are you?'', seg_start = Fin 2, seg_end = Fin 63\<rparr>]"
proof -
  have h: "list_all wellTimed greeting_and_question" by code_simp
  have v: "spec_aggregate greeting_and_question
     = [\<lparr>seg_text = js ''Hello world!'', seg_start = Fin 0, seg_end = Fin 2\<rparr>,
        \<lparr>seg_text = js ''How are you?'', seg_start = Fin 2, seg_end = Fin 63\<rparr>]"
    by code_simp
  from grouping_as_specified [of greeting_and_question] h v show ?thesis by blast
qed

section \<open>Claims about the grouping\<close>

lemma blank_concat:
  "trim (concat (map tok_text ws)) = [] \<longleftrightarrow> list_all (\<lambda>t. list_all isWhiteSpace (tok_text t)) ws"
  by (auto simp: trim_Nil_iff list_all_iff)

lemma groupSentences_trailing_blank:
  assumes "toks = [] \<or> closesSentence (last toks)" "trim (concat (map tok_text ws)) = []"
  shows "groupSentences (toks @ ws) = groupSentences toks"
proof -
  have blank: "groupFrom [] ws = []"
    using assms(2) groupFrom_blank [of "[]" ws] by (simp add: blank_concat)
  show ?thesis
  proof (cases "toks = []")
    case True
    then show ?thesis using blank by (simp add: groupSentences_groupFrom)
  next
    case False
    with assms(1) have "closesSentence (last toks)" by simp
    from groupFrom_append [OF False this, of "[]" ws] blank
    show ?thesis by (simp add: groupSentences_groupFrom)
  qed
qed

text \<open>
  Claim C7. For every token sequence, every segment has a text that is not empty, also
  after trimming; tokens of white space only after a closed sentence (or alone) add no
  segment; the empty token sequence gives no segment and the empty joined text.
\<close>

theorem segments_text_nonempty:
  "(\<forall>s\<in>set (groupSentences toks). seg_text s \<noteq> [] \<and> trim (seg_text s) \<noteq> []) \<and>
   ((toks = [] \<or> closesSentence (last toks)) \<and> trim (concat (map tok_text ws)) = []
      \<longrightarrow> groupSentences (toks @ ws) = groupSentences toks) \<and>
   groupSentences [] = [] \<and> res_text (buildResult []) = []"
proof (intro conjI ballI impI)
  fix s assume "s \<in> set (groupSentences toks)"
  then have "seg_text s \<noteq> [] \<and> trim (seg_text s) = seg_text s"
    using groupFrom_text [of s "[]" toks] by (simp add: groupSentences_groupFrom)
  then show "seg_text s \<noteq> []" and "trim (seg_text s) \<noteq> []" by simp_all
next
  assume "(toks = [] \<or> closesSentence (last toks)) \<and> trim (concat (map tok_text ws)) = []"
  then show "groupSentences (toks @ ws) = groupSentences toks"
    using groupSentences_trailing_blank by blast
next
  show "groupSentences [] = []" by (simp add: groupSentences_def)
  then show "res_text (buildResult []) = []" by (simp add: buildResult_def)
qed

theorem segments_text_nonempty_witness:
  "groupSentences hello_world \<noteq> [] \<and>
   seg_text (hd (groupSentences hello_world)) \<noteq> [] \<and>
   trim (seg_text (hd (groupSentences hello_world))) \<noteq> [] \<and>
   closesSentence (last hello_world) \<and>
   trim (concat (map tok_text [mk_token ''  '' ''00:00:01,000'' ''00:00:01,200''])) = [] \<and>
   groupSentences (hello_world @ [mk_token ''  '' ''00:00:01,000'' ''00:00:01,200''])
     = groupSentences hello_world"
proof -
  have 1: "groupSentences hello_world \<noteq> []" by code_simp
  then have m: "hd (groupSentences hello_world) \<in> set (groupSentences hello_world)" by simp
  have 2: "closesSentence (last hello_world)" by code_simp
  have 3: "trim (concat (map tok_text [mk_token ''  '' ''00:00:01,000'' ''00:00:01,200''])) = []"
    by code_simp
  from segments_text_nonempty [of hello_world "[mk_token ''  '' ''00:00:01,000'' ''00:00:01,200'']"]
    1 m 2 3
  show ?thesis by blast
qed

text \<open>
  Claim C5 as stated, for every token sequence, does not hold: the grouping does not look
  at the order of the times it is given. One token running from second 5 to second 1 gives
  a segment with start 5 and end 1.
\<close>

theorem segment_start_after_end_counterexample:
  "groupSentences [mk_token ''Hi.'' ''00:00:05,000'' ''00:00:01,000'']
     = [\<lparr>seg_text = js ''Hi.'', seg_start = Fin 5, seg_end = Fin 1\<rparr>] \<and>
   \<not> jle (Fin 5) (Fin 1)"
  by code_simp

text \<open>
  Claim C5, amended. For every token sequence the starts and ends of the segments are
  rounded token times taken in the order of the tokens. When the parsed times of the
  tokens (each start, then each end) are numbers in non-decreasing order, every segment
  has start \<open>\<le>\<close> end and no segment ends after the start of a later one.
\<close>

theorem segments_ordered_for_ordered_tokens:
  "subseq (segmentTimes (groupSentences toks)) (map Math_round (tokenTimes toks)) \<and>
   (sorted_wrt jle (tokenTimes toks) \<longrightarrow>
      (\<forall>s\<in>set (groupSentences toks). jle (seg_start s) (seg_end s)) \<and>
      sorted_wrt (\<lambda>a b. jle (seg_end a) (seg_start b)) (groupSentences toks))"
proof (intro conjI impI)
  show "subseq (segmentTimes (groupSentences toks)) (map Math_round (tokenTimes toks))"
    using groupFrom_times [of "[]" toks] by (simp add: groupSentences_groupFrom)
next
  assume "sorted_wrt jle (tokenTimes toks)"
  then have "sorted_wrt jle (segmentTimes (groupSentences toks))"
    by (rule groupSentences_times_sorted)
  then show "\<forall>s\<in>set (groupSentences toks). jle (seg_start s) (seg_end s)"
    and "sorted_wrt (\<lambda>a b. jle (seg_end a) (seg_start b)) (groupSentences toks)"
    using segmentTimes_sorted by blast+
qed

theorem segments_ordered_for_ordered_tokens_witness:
  "sorted_wrt jle (tokenTimes two_sentences) \<and>
   length (groupSentences two_sentences) = 2 \<and>
   jle (seg_start (groupSentences two_sentences ! 0)) (seg_end (groupSentences two_sentences ! 0)) \<and>
   jle (seg_start (groupSentences two_sentences ! 1)) (seg_end (groupSentences two_sentences ! 1)) \<and>
   sorted_wrt (\<lambda>a b. jle (seg_end a) (seg_start b)) (groupSentences two_sentences)"
proof -
  have 1: "sorted_wrt jle (tokenTimes two_sentences)" by code_simp
  have 2: "length (groupSentences two_sentences) = 2" by code_simp
  then have m: "groupSentences two_sentences ! 0 \<in> set (groupSentences two_sentences)"
    "groupSentences two_sentences ! 1 \<in> set (groupSentences two_sentences)"
    by simp_all
  from segments_ordered_for_ordered_tokens [of two_sentences] 1 2 m show ?thesis by blast
qed

text \<open>
  Claim C6 as stated, for every token sequence, does not hold: two one-token sentences
  given in the order second 5, second 1 give segments with starts 5 and 1.
\<close>

theorem segment_starts_out_of_order_counterexample:
  "groupSentences
     [mk_token ''A.'' ''00:00:05,000'' ''00:00:06,000'',
      mk_token ''B.'' ''00:00:01,000'' ''00:00:02,000'']
     = [\<lparr>seg_text = js ''A.'', seg_start = Fin 5, seg_end = Fin 6\<rparr>,
        \<lparr>seg_text = js ''B.'', seg_start = Fin 1, seg_end = Fin 2\<rparr>] \<and>
   \<not> jle (Fin 5) (Fin 1)"
  by code_simp

text \<open>
  Claim C6, amended. When the parsed start times of the tokens are in non-decreasing
  order, the start of each segment is at most the start of the next one.
\<close>

theorem segment_starts_ordered:
  assumes "sorted_wrt jle (map tokenStart toks)" "Suc i < length (groupSentences toks)"
  shows "jle (seg_start (groupSentences toks ! i)) (seg_start (groupSentences toks ! Suc i))"
proof -
  have "sorted_wrt jle (map seg_start (groupSentences toks))"
    using assms(1) by (rule groupSentences_starts_sorted)
  then have "jle (map seg_start (groupSentences toks) ! i) (map seg_start (groupSentences toks) ! Suc i)"
    using assms(2) sorted_wrt_nth_less [of jle "map seg_start (groupSentences toks)" i "Suc i"]
    by simp
  then show ?thesis using assms(2) by simp
qed

theorem segment_starts_ordered_witness:
  "sorted_wrt jle (map tokenStart two_sentences) \<and>
   Suc 0 < length (groupSentences two_sentences) \<and>
   jle (seg_start (groupSentences two_sentences ! 0)) (seg_start (groupSentences two_sentences ! Suc 0))"
proof -
  have 1: "sorted_wrt jle (map tokenStart two_sentences)" by code_simp
  have 2: "Suc 0 < length (groupSentences two_sentences)" by code_simp
  from segment_starts_ordered [OF 1 2] 1 2 show ?thesis by blast
qed

section \<open>Claims about the handler\<close>

lemma progress_trace:
  "trace (foldl (\<lambda>s progress. onProgress progress s) w ps)
     = trace w @ map (IpcSend ''transcription-progress'') ps"
  by (induction ps arbitrary: w) (simp_all add: onProgress_def log_def Let_def)

lemma listeners_emit: "listeners (ipcRenderer_emit channel v r) = listeners r"
  by (simp add: ipcRenderer_emit_def)

lemma deliver_sends:
  "listeners r = [(channel, l)] \<Longrightarrow>
   observed (deliver (map (IpcSend channel) ps) r) = observed r @ map (Pair (wraps l)) ps"
proof (induction ps arbitrary: r)
  case Nil
  then show ?case by (simp add: deliver_def)
next
  case (Cons p ps)
  have l: "listeners (ipcRenderer_emit channel p r) = [(channel, l)]"
    using Cons.prems by (simp add: listeners_emit)
  have "deliver (map (IpcSend channel) (p # ps)) r
          = deliver (map (IpcSend channel) ps) (ipcRenderer_emit channel p r)"
    by (simp add: deliver_def)
  then show ?case
    using Cons.IH [OF l] Cons.prems by (simp add: ipcRenderer_emit_def)
qed

lemma deliver_append: "deliver (xs @ ys) r = deliver ys (deliver xs r)"
  by (simp add: deliver_def)

lemma deliver_engine_events:
  "deliver [EngineInvoked f] r = r" "deliver [EngineReturned] r = r"
  by (simp_all add: deliver_def)

text \<open>
  Claim C4. When the readiness flag is false the call fails at once with the
  not-initialised error and the state is unchanged: no temporary file is created.
\<close>

theorem not_ready_rejected:
  "\<not> isWhisperInitialized w \<Longrightarrow> transcribe_audio e w = (Inl notInitialized, w)"
  by (simp add: transcribe_audio_def)

theorem not_ready_rejected_witness:
  "\<not> isWhisperInitialized (ready_world\<lparr>isWhisperInitialized := False\<rparr>) \<and>
   transcribe_audio sample_env (ready_world\<lparr>isWhisperInitialized := False\<rparr>)
     = (Inl notInitialized, ready_world\<lparr>isWhisperInitialized := False\<rparr>) \<and>
   files (snd (transcribe_audio sample_env (ready_world\<lparr>isWhisperInitialized := False\<rparr>))) = {}"
proof -
  have h: "\<not> isWhisperInitialized (ready_world\<lparr>isWhisperInitialized := False\<rparr>)" by simp
  from not_ready_rejected [OF h, of sample_env] show ?thesis by (simp add: ready_world_def)
qed

text \<open>
  After a conversion that succeeded, whether the engine then succeeds or fails, both
  temporary files are gone when the call returns (no removal being refused).
\<close>

lemma progress_files:
  "files (foldl (\<lambda>s progress. onProgress progress s) w ps) = files w"
  by (induction ps arbitrary: w) (simp_all add: onProgress_def log_def Let_def)

lemma temporary_files_removed_after_conversion:
  assumes "isWhisperInitialized w" "write_outcome e = None" "convert_outcome e = None"
    "unlink_failures e = {}"
  shows "files (snd (transcribe_audio e w)) = files w - {Webm (clock_webm e), Wav (clock_wav e)}"
  using assms
  by (auto simp: transcribe_audio_def tryBlock_def convertToWav_def transcribe_def Let_def
      unlinkSync_def log_def progress_files split: sum.splits prod.splits)

text \<open>
  Claim C2. When the conversion fails the call fails with the converter's error and the
  engine is not invoked. The claim continues: the raw input file is removed before the
  call returns. In the handler \<^verbatim>\<open>tempWavFile\<close> is still \<^verbatim>\<open>null\<close> at that point, the
  \<^verbatim>\<open>finally\<close> clause removes nothing, and the file \<^verbatim>\<open>recording-n.webm\<close> stays.
\<close>

theorem conversion_failure_leaves_webm:
  assumes "isWhisperInitialized w" "write_outcome e = None" "convert_outcome e = Some err"
  shows "fst (transcribe_audio e w) = Inl err \<and>
         trace (snd (transcribe_audio e w)) = trace w \<and>
         files (snd (transcribe_audio e w)) = insert (Webm (clock_webm e)) (files w)"
  using assms
  by (simp add: transcribe_audio_def tryBlock_def convertToWav_def log_def Let_def)

theorem conversion_failure_leaves_webm_witness:
  "fst (transcribe_audio (sample_env\<lparr>convert_outcome := Some (JsError ''Invalid data found'')\<rparr>)
          ready_world) = Inl (JsError ''Invalid data found'') \<and>
   trace (snd (transcribe_audio
          (sample_env\<lparr>convert_outcome := Some (JsError ''Invalid data found'')\<rparr>) ready_world)) = [] \<and>
   files (snd (transcribe_audio
          (sample_env\<lparr>convert_outcome := Some (JsError ''Invalid data found'')\<rparr>) ready_world))
     = {Webm 1000}"
  using conversion_failure_leaves_webm
    [of ready_world "sample_env\<lparr>convert_outcome := Some (JsError ''Invalid data found'')\<rparr>"
        "JsError ''Invalid data found''"]
  by (simp add: ready_world_def sample_env_def)

text \<open>
  Claim C9. In a call that reaches the engine, the messages sent to the renderer between
  the invocation of the engine and its return are exactly the progress values the engine
  reports, in that order, on the channel \<^verbatim>\<open>transcription-progress\<close>; a callback
  registered with \<^verbatim>\<open>onTranscriptionProgress\<close> receives exactly these values in order.
\<close>

theorem progress_forwarded_in_order:
  assumes "isWhisperInitialized w" "write_outcome e = None" "convert_outcome e = None"
  shows "trace (snd (transcribe_audio e w))
           = trace w @ [EngineInvoked (Wav (clock_wav e))]
               @ map (IpcSend ''transcription-progress'') (engine_progress e) @ [EngineReturned] \<and>
         observed (deliver (drop (length (trace w)) (trace (snd (transcribe_audio e w))))
                     (onTranscriptionProgress cb renderer0))
           = map (Pair cb) (engine_progress e)"
proof -
  let ?sent = "[EngineInvoked (Wav (clock_wav e))]
               @ map (IpcSend ''transcription-progress'') (engine_progress e) @ [EngineReturned]"
  have tr: "trace (snd (transcribe_audio e w)) = trace w @ ?sent"
    using assms
    by (simp add: transcribe_audio_def tryBlock_def convertToWav_def transcribe_def Let_def
        unlinkSync_def log_def progress_trace split: sum.splits prod.splits)
  have l: "listeners (onTranscriptionProgress cb renderer0)
             = [(''transcription-progress'', \<lparr>lid = 0, wraps = cb\<rparr>)]"
    and o: "observed (onTranscriptionProgress cb renderer0) = []"
    by (simp_all add: onTranscriptionProgress_def newListener_def ipcRenderer_on_def renderer0_def)
  have "observed (deliver ?sent (onTranscriptionProgress cb renderer0))
          = map (Pair cb) (engine_progress e)"
    using deliver_sends [OF l, of "engine_progress e"] o
    by (simp only: deliver_append deliver_engine_events) simp
  then show ?thesis using tr by simp
qed

theorem progress_forwarded_in_order_witness:
  "isWhisperInitialized ready_world \<and> write_outcome sample_env = None \<and>
   convert_outcome sample_env = None \<and>
   engine_progress sample_env = [Fin (1 / 10), Fin (4 / 10), Fin (9 / 10), Fin 1] \<and>
   trace (snd (transcribe_audio sample_env ready_world))
     = trace ready_world @ [EngineInvoked (Wav (clock_wav sample_env))]
         @ map (IpcSend ''transcription-progress'') (engine_progress sample_env)
         @ [EngineReturned] \<and>
   observed (deliver (drop (length (trace ready_world))
                        (trace (snd (transcribe_audio sample_env ready_world))))
               (onTranscriptionProgress 7 renderer0))
     = map (Pair 7) (engine_progress sample_env)"
proof -
  have h: "isWhisperInitialized ready_world" "write_outcome sample_env = None"
    "convert_outcome sample_env = None"
    by (simp_all add: ready_world_def sample_env_def)
  have c: "engine_progress sample_env = [Fin (1 / 10), Fin (4 / 10), Fin (9 / 10), Fin 1]"
    by (simp add: sample_env_def)
  from progress_forwarded_in_order [OF h, of 7] h c show ?thesis by blast
qed

text \<open>
  Claim C10 as stated does not hold: the handler rethrows the error it caught as it is.
  A failure of the conversion and a failure of the engine with the same underlying error
  reach the caller as the same value, with nothing that names the stage.
\<close>

theorem failure_stage_not_surfaced_counterexample:
  "fst (transcribe_audio (sample_env\<lparr>convert_outcome := Some (JsError ''spawn ENOENT'')\<rparr>)
          ready_world) = Inl (JsError ''spawn ENOENT'') \<and>
   fst (transcribe_audio (sample_env\<lparr>engine_outcome := Inl (JsError ''spawn ENOENT'')\<rparr>)
          ready_world) = Inl (JsError ''spawn ENOENT'')"
  by (simp add: ready_world_def sample_env_def transcribe_audio_def tryBlock_def convertToWav_def
      transcribe_def unlinkSync_def log_def Let_def)

text \<open>
  Claim C10, amended. A call fails with the fixed not-initialised error when the readiness
  flag is false, and otherwise with the unwrapped error of the first of the file write, the
  conversion and the engine call that fails; it succeeds with the grouped transcript when
  none fails. Failures to remove temporary files do not enter the outcome.
\<close>

theorem failures_surface_unwrapped:
  "fst (transcribe_audio e w) =
     (if \<not> isWhisperInitialized w then Inl notInitialized
      else case write_outcome e of
             Some err \<Rightarrow> Inl err
           | None \<Rightarrow>
               (case convert_outcome e of
                  Some err \<Rightarrow> Inl err
                | None \<Rightarrow>
                    (case engine_outcome e of
                       Inl err \<Rightarrow> Inl err
                     | Inr transcription \<Rightarrow> Inr (buildResult transcription))))"
  by (simp add: transcribe_audio_def tryBlock_def convertToWav_def transcribe_def Let_def
      split: option.splits sum.splits prod.splits)

section \<open>Claims about the preload script\<close>

lemma removeFirst_none: "\<forall>x\<in>set xs. \<not> P x \<Longrightarrow> removeFirst P xs = xs"
  by (induction xs) simp_all

lemma offTranscriptionProgress_removes_nothing:
  assumes "\<forall>x\<in>set (listeners r). lid (snd x) < fresh r"
  shows "listeners (offTranscriptionProgress cb r) = listeners r"
proof -
  have "\<forall>x\<in>set (rev (listeners r)).
          \<not> (fst x = ''transcription-progress'' \<and> lid (snd x) = fresh r)"
    using assms by auto
  then show ?thesis
    by (simp add: offTranscriptionProgress_def newListener_def ipcRenderer_removeListener_def
        removeFirst_none)
qed

text \<open>
  Claim C3. The claim: after \<^verbatim>\<open>onTranscriptionProgress(cb)\<close>, the call
  \<^verbatim>\<open>offTranscriptionProgress(cb)\<close> removes the listener. The function passed to
  \<^verbatim>\<open>removeListener\<close> is a new function object, equal to no registered one: the
  listener stays and \<open>cb\<close> still receives the next progress value.
\<close>

theorem offTranscriptionProgress_keeps_listener:
  "listeners (offTranscriptionProgress cb (onTranscriptionProgress cb renderer0))
     = [(''transcription-progress'', \<lparr>lid = 0, wraps = cb\<rparr>)] \<and>
   observed (ipcRenderer_emit ''transcription-progress'' p
              (offTranscriptionProgress cb (onTranscriptionProgress cb renderer0)))
     = [(cb, p)]"
  by (simp add: renderer0_def offTranscriptionProgress_def onTranscriptionProgress_def
      newListener_def ipcRenderer_on_def ipcRenderer_removeListener_def ipcRenderer_emit_def)

end
